theory Spec2Isabelle
  imports Main "HOL-Library.Word" "HOL-Library.Sublist"
begin

section \<open>Strings and the string functions of the standard library\<close>

text \<open>
  A Go string is a sequence of bytes; \<open>string\<close> is a list of 8-bit characters, so
  \<open>length\<close> is Go's \<open>len\<close> and \<open>take\<close> is a slice by byte position.
\<close>

definition newline :: char where
  "newline = CHR 0x0A"

text \<open>\<open>strings.HasPrefix(s, p)\<close>: \<open>len(s) >= len(p) && s[:len(p)] == p\<close>.\<close>

definition HasPrefix :: "string \<Rightarrow> string \<Rightarrow> bool" where
  "HasPrefix s p = (length p \<le> length s \<and> take (length p) s = p)"

text \<open>\<open>strings.HasSuffix(s, p)\<close>, used by the model of \<open>strings.TrimSpace\<close>.\<close>

definition HasSuffix :: "string \<Rightarrow> string \<Rightarrow> bool" where
  "HasSuffix s p = (length p \<le> length s \<and> drop (length s - length p) s = p)"

text \<open>
  \<open>strings.Split(text, "\n")\<close>: the substrings between the separators; the empty
  string gives one empty substring.
\<close>

fun Split :: "string \<Rightarrow> string list" where
  "Split [] = [[]]"
| "Split (c # cs) =
     (if c = newline then [] # Split cs
      else (case Split cs of [] \<Rightarrow> [[c]] | l # ls \<Rightarrow> (c # l) # ls))"

text \<open>\<open>strings.Join(elems, "\n")\<close>.\<close>

fun Join :: "string list \<Rightarrow> string" where
  "Join [] = []"
| "Join [l] = l"
| "Join (l # ls) = l @ newline # Join ls"

text \<open>
  \<open>unicode.IsSpace\<close> holds of U+0009..U+000D, U+0020, U+0085, U+00A0, U+1680,
  U+2000..U+200A, U+2028, U+2029, U+202F, U+205F and U+3000. These are their UTF-8
  encodings; a byte sequence that is not a valid encoding decodes to U+FFFD, which is
  not a space.
\<close>

definition space_runes :: "string list" where
  "space_runes =
    [[CHR 0x09], [CHR 0x0A], [CHR 0x0B], [CHR 0x0C], [CHR 0x0D], [CHR 0x20],
     [CHR 0xC2, CHR 0x85], [CHR 0xC2, CHR 0xA0],
     [CHR 0xE1, CHR 0x9A, CHR 0x80],
     [CHR 0xE2, CHR 0x80, CHR 0x80], [CHR 0xE2, CHR 0x80, CHR 0x81],
     [CHR 0xE2, CHR 0x80, CHR 0x82], [CHR 0xE2, CHR 0x80, CHR 0x83],
     [CHR 0xE2, CHR 0x80, CHR 0x84], [CHR 0xE2, CHR 0x80, CHR 0x85],
     [CHR 0xE2, CHR 0x80, CHR 0x86], [CHR 0xE2, CHR 0x80, CHR 0x87],
     [CHR 0xE2, CHR 0x80, CHR 0x88], [CHR 0xE2, CHR 0x80, CHR 0x89],
     [CHR 0xE2, CHR 0x80, CHR 0x8A],
     [CHR 0xE2, CHR 0x80, CHR 0xA8], [CHR 0xE2, CHR 0x80, CHR 0xA9],
     [CHR 0xE2, CHR 0x80, CHR 0xAF], [CHR 0xE2, CHR 0x81, CHR 0x9F],
     [CHR 0xE3, CHR 0x80, CHR 0x80]]"

text \<open>The number of bytes of the space rune that \<open>s\<close> starts (ends) with; 0 if none.\<close>

definition leading_space :: "string \<Rightarrow> nat" where
  "leading_space s = (case find (HasPrefix s) space_runes of None \<Rightarrow> 0 | Some w \<Rightarrow> length w)"

definition trailing_space :: "string \<Rightarrow> nat" where
  "trailing_space s = (case find (HasSuffix s) space_runes of None \<Rightarrow> 0 | Some w \<Rightarrow> length w)"

function TrimLeft :: "string \<Rightarrow> string" where
  "TrimLeft s = (if leading_space s = 0 then s else TrimLeft (drop (leading_space s) s))"
  by pat_completeness auto
termination
proof (relation "measure length")
  show "wf (measure length)" by simp
next
  fix s :: string
  assume "leading_space s \<noteq> 0"
  moreover have "leading_space s \<le> length s"
    by (auto simp: leading_space_def HasPrefix_def find_Some_iff split: option.splits)
  ultimately show "(drop (leading_space s) s, s) \<in> measure length"
    by (cases s) auto
qed

function TrimRight :: "string \<Rightarrow> string" where
  "TrimRight s =
     (if trailing_space s = 0 then s else TrimRight (take (length s - trailing_space s) s))"
  by pat_completeness auto
termination
proof (relation "measure length")
  show "wf (measure length)" by simp
next
  fix s :: string
  assume "trailing_space s \<noteq> 0"
  moreover have "trailing_space s \<le> length s"
    by (auto simp: trailing_space_def HasSuffix_def find_Some_iff split: option.splits)
  ultimately show "(take (length s - trailing_space s) s, s) \<in> measure length"
    by (cases s) auto
qed

declare TrimLeft.simps [simp del] TrimRight.simps [simp del]

text \<open>
  \<open>strings.TrimSpace(s)\<close>: \<open>s\<close> without its leading and trailing white space, as
  \<open>unicode.IsSpace\<close> defines it.
\<close>

definition TrimSpace :: "string \<Rightarrow> string" where
  "TrimSpace s = TrimRight (TrimLeft s)"

section \<open>Time, errors and decoded JSON\<close>

text \<open>
  A \<open>time.Time\<close> is an instant, here its number of nanoseconds since the epoch;
  \<open>t.After(u)\<close> compares instants and \<open>t.Add(d)\<close> moves one by a duration in nanoseconds.
\<close>

type_synonym time = int

definition After :: "time \<Rightarrow> time \<Rightarrow> bool" where
  "After t u = (u < t)"

definition Add :: "time \<Rightarrow> int \<Rightarrow> time" where
  "Add t d = t + d"

definition Second :: int where
  "Second = 1000000000"

definition Minute :: int where
  "Minute = 60 * Second"

definition CHECK_INTERVAL :: int where
  "CHECK_INTERVAL = 30 * Second"

definition LOG_LINES :: int where
  "LOG_LINES = 50"

definition SLACK_CHANNEL :: string where
  "SLACK_CHANNEL = ''#all-vishal-personal''"

definition OLLAMA_MODEL :: string where
  "OLLAMA_MODEL = ''llama3''"

datatype error = Error string

typedecl float64

text \<open>What \<open>json.Unmarshal\<close> stores in an \<open>interface{}\<close>.\<close>

datatype json =
    JNull
  | JBool bool
  | JNumber float64
  | JString string
  | JArray "json list"
  | JObject "string \<Rightarrow> json option"

section \<open>The data of the program and of its collaborators\<close>

text \<open>The fields of a \<open>corev1.Event\<close> that the program reads.\<close>

record event =
  InvolvedObjectName :: string
  LastTimestamp :: time
  Reason :: string
  Message :: string

text \<open>
  What the calls of the standard library returned in one execution of \<open>callOllama\<close>:
  \<open>http.NewRequest\<close>, \<open>http.DefaultClient.Do\<close>, \<open>ioutil.ReadAll\<close> on the response
  body, and \<open>json.Unmarshal\<close> of that body into \<open>parsed\<close>.
\<close>

record ollama_io =
  newRequest_err :: "error option"
  do_err :: "error option"
  readAll_result :: "error + string"
  unmarshal_result :: "error + (string \<Rightarrow> json option)"

record ollama_request =
  req_model :: string
  req_prompt :: string
  req_stream :: bool

text \<open>The payload of a post: the keys \<open>channel\<close>, \<open>text\<close> and, in a reply, \<open>thread_ts\<close>.\<close>

record payload =
  p_channel :: string
  p_text :: string
  p_thread_ts :: "string option"

text \<open>
  What one execution of \<open>postToSlack\<close> got back: the result of
  \<open>http.DefaultClient.Do\<close> with the body read from the response, and the value of
  \<open>result\<close> after \<open>json.Unmarshal\<close>, whose error is ignored.
\<close>

record post_io =
  post_do :: "error + string"
  post_result :: "string \<Rightarrow> json option"

text \<open>
  What the calls of one execution of \<open>analyzePod\<close> returned: the log tail, the event
  list of the namespace, the calls inside \<open>callOllama\<close>, and one \<open>post_io\<close> for each
  of the four posts.
\<close>

record incident_io =
  getLogs_result :: "error + string"
  listEvents_result :: "error + event list"
  ollama :: ollama_io
  post_main :: post_io
  post_events :: post_io
  post_logs :: post_io
  post_analysis :: post_io

text \<open>The fields of a pod that the loop reads; \<open>RestartCount\<close> is an \<open>int32\<close>.\<close>

record container_status =
  RestartCount :: "32 word"

record pod =
  Namespace :: string
  Name :: string
  StartTime :: "time option"
  ContainerStatuses :: "container_status list"

section \<open>The notification formatter\<close>

datatype go_panic = SliceBoundsOutOfRange

text \<open>
  \<open>truncate(s string, limit int)\<close>. \<open>limit\<close> is a signed integer; the slice expression
  \<open>s[:limit]\<close> panics at run time when \<open>limit\<close> is negative (\<open>limit \<le> len(s)\<close> holds
  where it is evaluated).
\<close>

definition truncated_suffix :: string where
  "truncated_suffix = ''... (truncated)''"

definition truncate :: "string \<Rightarrow> int \<Rightarrow> go_panic + string" where
  "truncate s limit =
     (if int (length s) \<le> limit then Inr s
      else if limit < 0 then Inl SliceBoundsOutOfRange
      else Inr (take (nat limit) s @ truncated_suffix))"

definition fence_open :: string where
  "fence_open = ''```bash''"

definition fence_close :: string where
  "fence_close = ''```''"

definition is_command :: "string \<Rightarrow> bool" where
  "is_command trimmed = (HasPrefix trimmed ''kubectl '' \<or> HasPrefix trimmed ''bash '')"

text \<open>
  The loop of \<open>formatCodeBlocks\<close> over the lines, on its two variables \<open>formatted\<close> and
  \<open>inCodeBlock\<close>.
\<close>

fun format_loop :: "string list \<Rightarrow> string list \<Rightarrow> bool \<Rightarrow> string list \<times> bool" where
  "format_loop [] formatted inCodeBlock = (formatted, inCodeBlock)"
| "format_loop (line # rest) formatted inCodeBlock =
     (let trimmed = TrimSpace line in
      if is_command trimmed then
        (if \<not> inCodeBlock then format_loop rest (formatted @ [fence_open] @ [trimmed]) True
         else format_loop rest (formatted @ [trimmed]) inCodeBlock)
      else
        (if inCodeBlock then format_loop rest (formatted @ [fence_close] @ [trimmed]) False
         else format_loop rest (formatted @ [trimmed]) inCodeBlock))"

text \<open>The lines \<open>formatCodeBlocks\<close> joins: the loop from the empty list, and the last fence.\<close>

definition format_lines :: "string list \<Rightarrow> string list" where
  "format_lines lines =
     (case format_loop lines [] False of
        (formatted, inCodeBlock) \<Rightarrow>
          if inCodeBlock then formatted @ [fence_close] else formatted)"

definition formatCodeBlocks :: "string \<Rightarrow> string" where
  "formatCodeBlocks text = Join (format_lines (Split text))"

section \<open>The evidence collector\<close>

text \<open>The loop of \<open>analyzePod\<close> over \<open>eventList.Items\<close>, appending to \<open>events\<close>.\<close>

fun collect_events :: "event list \<Rightarrow> string \<Rightarrow> time \<Rightarrow> event list \<Rightarrow> event list" where
  "collect_events [] podName restartTime events = events"
| "collect_events (e # items) podName restartTime events =
     (if InvolvedObjectName e = podName
         \<and> After (LastTimestamp e) (Add restartTime (- 1 * Minute))
      then collect_events items podName restartTime (events @ [e])
      else collect_events items podName restartTime events)"

definition formatEvents :: "event list \<Rightarrow> string" where
  "formatEvents events = Join (map (\<lambda>e. Reason e @ '': '' @ Message e) events)"

section \<open>The analysis requester\<close>

definition ollama_body :: "string \<Rightarrow> event list \<Rightarrow> ollama_request" where
  "ollama_body logs events =
     (let eventStr = Join (map (\<lambda>e. ''- '' @ Reason e @ '': '' @ Message e) events);
          prompt = ''Here are the logs and events from a Kubernetes pod. Help me identify the issue and suggest a fix.''
                   @ [newline, newline] @ ''Events:'' @ [newline] @ eventStr
                   @ [newline, newline] @ ''Logs:'' @ [newline] @ logs
      in \<lparr>req_model = OLLAMA_MODEL, req_prompt = prompt, req_stream = False\<rparr>)"

text \<open>
  \<open>callOllama\<close> posts \<open>ollama_body logs events\<close> and returns what it makes of the
  response; each early return of the source is a branch here.
\<close>

definition no_response :: string where
  "no_response = ''No response from model''"

definition callOllama :: "ollama_io \<Rightarrow> string \<Rightarrow> event list \<Rightarrow> error + string" where
  "callOllama io logs events =
     (case newRequest_err io of Some err \<Rightarrow> Inl err | None \<Rightarrow>
      case do_err io of Some err \<Rightarrow> Inl err | None \<Rightarrow>
      case readAll_result io of Inl err \<Rightarrow> Inl err | Inr respBody \<Rightarrow>
      case unmarshal_result io of Inl err \<Rightarrow> Inl err | Inr parsed \<Rightarrow>
      case parsed ''response'' of
        Some (JString response) \<Rightarrow> Inr response
      | _ \<Rightarrow> Inr no_response)"

section \<open>The notification publisher\<close>

datatype log_entry =
    FetchPodsError error
  | DetectedRestart string string
  | GetLogsFailed string error
  | GetEventsFailed string error
  | AnalyzeFailed string error
  | SlackApiError error
  | SlackApiResponse string

datatype effect =
    ListPods
  | Log log_entry
  | Store string time
  | Go string string time
  | Sleep int
  | SlackPost payload
  | Panic go_panic

definition postToSlack :: "post_io \<Rightarrow> payload \<Rightarrow> string \<times> effect list" where
  "postToSlack io p =
     (case post_do io of
        Inl err \<Rightarrow> ('''', [SlackPost p, Log (SlackApiError err)])
      | Inr body \<Rightarrow>
          if post_result io ''ok'' \<noteq> Some (JBool True)
          then ('''', [SlackPost p, Log (SlackApiResponse body)])
          else (case post_result io ''ts'' of
                  Some (JString ts) \<Rightarrow> (ts, [SlackPost p])
                | _ \<Rightarrow> ('''', [SlackPost p])))"

definition emoji_siren :: string where
  "emoji_siren = [CHR 0xF0, CHR 0x9F, CHR 0x9A, CHR 0xA8]"

definition emoji_clipboard :: string where
  "emoji_clipboard = [CHR 0xF0, CHR 0x9F, CHR 0x93, CHR 0x8B]"

definition emoji_package :: string where
  "emoji_package = [CHR 0xF0, CHR 0x9F, CHR 0x93, CHR 0xA6]"

definition emoji_robot :: string where
  "emoji_robot = [CHR 0xF0, CHR 0x9F, CHR 0xA4, CHR 0x96]"

text \<open>
  \<open>format_time\<close> stands for \<open>restartTime.Format("2006-01-02 15:04:05")\<close> of the
  standard library.
\<close>

definition main_payload :: "(time \<Rightarrow> string) \<Rightarrow> string \<Rightarrow> string \<Rightarrow> time \<Rightarrow> payload" where
  "main_payload format_time podName namespace restartTime =
     (let summary = ''*'' @ emoji_siren @ '' Pod Restart Detected!*'' @ [newline]
            @ ''> *Pod:* `'' @ podName @ ''`'' @ [newline]
            @ ''> *Namespace:* `'' @ namespace @ ''`'' @ [newline]
            @ ''> *Restart Time:* `'' @ format_time restartTime @ ''`''
      in \<lparr>p_channel = SLACK_CHANNEL, p_text = summary, p_thread_ts = None\<rparr>)"

definition sendMainSlackMessage ::
  "post_io \<Rightarrow> (time \<Rightarrow> string) \<Rightarrow> string \<Rightarrow> string \<Rightarrow> time \<Rightarrow> string \<times> effect list" where
  "sendMainSlackMessage io format_time podName namespace restartTime =
     postToSlack io (main_payload format_time podName namespace restartTime)"

definition thread_payload :: "string \<Rightarrow> string \<Rightarrow> payload" where
  "thread_payload threadTs msg =
     \<lparr>p_channel = SLACK_CHANNEL, p_text = msg, p_thread_ts = Some threadTs\<rparr>"

definition sendSlackThread :: "post_io \<Rightarrow> string \<Rightarrow> string \<Rightarrow> effect list" where
  "sendSlackThread io threadTs msg = snd (postToSlack io (thread_payload threadTs msg))"

section \<open>The analysis task\<close>

definition events_block :: "event list \<Rightarrow> string" where
  "events_block events =
     emoji_clipboard @ '' *Events:*'' @ [newline] @ ''```'' @ formatEvents events @ ''```''"

definition logs_block :: "string \<Rightarrow> string" where
  "logs_block truncated_logs =
     emoji_package @ '' *Logs:*'' @ [newline] @ ''```'' @ truncated_logs @ ''```''"

definition analysis_block :: "string \<Rightarrow> string" where
  "analysis_block truncated_analysis =
     emoji_robot @ '' *Analysis:*'' @ [newline] @ formatCodeBlocks truncated_analysis"

text \<open>
  \<open>analyzePod\<close>, as the effects it has in their order. A panic ends the task where it
  is raised.
\<close>

definition analyzePod ::
  "incident_io \<Rightarrow> (time \<Rightarrow> string) \<Rightarrow> string \<Rightarrow> string \<Rightarrow> time \<Rightarrow> effect list" where
  "analyzePod io format_time podName namespace restartTime =
     (case getLogs_result io of
        Inl err \<Rightarrow> [Log (GetLogsFailed podName err)]
      | Inr logs \<Rightarrow>
     (case listEvents_result io of
        Inl err \<Rightarrow> [Log (GetEventsFailed podName err)]
      | Inr items \<Rightarrow>
     (let events = collect_events items podName restartTime [] in
      case callOllama (ollama io) logs events of
        Inl err \<Rightarrow> [Log (AnalyzeFailed podName err)]
      | Inr analysis \<Rightarrow>
     (case sendMainSlackMessage (post_main io) format_time podName namespace restartTime of
        (threadTS, posted) \<Rightarrow>
          if threadTS \<noteq> '''' then
            posted
            @ sendSlackThread (post_events io) threadTS (events_block events)
            @ (case truncate logs 1000 of
                 Inl p \<Rightarrow> [Panic p]
               | Inr truncated_logs \<Rightarrow>
                   sendSlackThread (post_logs io) threadTS (logs_block truncated_logs)
                   @ (case truncate analysis 3000 of
                        Inl p \<Rightarrow> [Panic p]
                      | Inr truncated_analysis \<Rightarrow>
                          sendSlackThread (post_analysis io) threadTS
                            (analysis_block truncated_analysis)))
          else posted))))"

text \<open>The payloads handed to \<open>postToSlack\<close>, in their order.\<close>

fun slack_posts :: "effect list \<Rightarrow> payload list" where
  "slack_posts [] = []"
| "slack_posts (SlackPost p # es) = p # slack_posts es"
| "slack_posts (_ # es) = slack_posts es"

section \<open>The restart detector\<close>

text \<open>\<open>notifiedRestarts\<close>, a \<open>map[string]time.Time\<close>, empty when the process starts.\<close>

type_synonym dedup = "string \<Rightarrow> time option"

text \<open>\<open>fmt.Sprintf("%s/%s", pod.Namespace, pod.Name)\<close>.\<close>

definition dedup_key :: "string \<Rightarrow> string \<Rightarrow> string" where
  "dedup_key ns nm = ns @ ''/'' @ nm"

text \<open>
  The body of the inner loop, for one container status of one pod: the new value of
  \<open>notifiedRestarts\<close> and the effects in their order (the store into the map, the
  log line, the \<open>go\<close> statement with its evaluated arguments).
\<close>

definition check_container :: "pod \<Rightarrow> container_status \<Rightarrow> dedup \<Rightarrow> dedup \<times> effect list" where
  "check_container p cs notifiedRestarts =
     (if 0 < sint (RestartCount cs) \<and> StartTime p \<noteq> None then
        (let key = dedup_key (Namespace p) (Name p);
             restartTime = the (StartTime p)
         in if (case notifiedRestarts key of
                  None \<Rightarrow> True
                | Some last_seen \<Rightarrow> After restartTime last_seen)
            then (notifiedRestarts(key \<mapsto> restartTime),
                  [Store key restartTime,
                   Log (DetectedRestart (Name p) (Namespace p)),
                   Go (Name p) (Namespace p) restartTime])
            else (notifiedRestarts, []))
      else (notifiedRestarts, []))"

text \<open>A \<open>for ... range\<close> loop whose body changes the map and has effects.\<close>

fun for_range ::
  "('a \<Rightarrow> dedup \<Rightarrow> dedup \<times> effect list) \<Rightarrow> 'a list \<Rightarrow> dedup \<Rightarrow> dedup \<times> effect list" where
  "for_range body [] m = (m, [])"
| "for_range body (x # xs) m =
     (case body x m of
        (m1, es1) \<Rightarrow> (case for_range body xs m1 of (m2, es2) \<Rightarrow> (m2, es1 @ es2)))"

definition scan_pod :: "pod \<Rightarrow> dedup \<Rightarrow> dedup \<times> effect list" where
  "scan_pod p m = for_range (check_container p) (ContainerStatuses p) m"

definition scan_pods :: "pod list \<Rightarrow> dedup \<Rightarrow> dedup \<times> effect list" where
  "scan_pods items m = for_range scan_pod items m"

text \<open>
  One iteration of the \<open>for\<close> loop of \<open>main\<close>, on what the listing call returned. After
  a listing error \<open>continue\<close> starts the next iteration; otherwise the pods are scanned
  and the loop sleeps.
\<close>

definition poll :: "error + pod list \<Rightarrow> dedup \<Rightarrow> dedup \<times> effect list" where
  "poll listing m =
     (case listing of
        Inl err \<Rightarrow> (m, [ListPods, Log (FetchPodsError err)])
      | Inr items \<Rightarrow>
          (case scan_pods items m of
             (m', es) \<Rightarrow> (m', [ListPods] @ es @ [Sleep CHECK_INTERVAL])))"

text \<open>
  The first iterations of the loop of \<open>main\<close>, one for each result of the listing call,
  from a given value of \<open>notifiedRestarts\<close>; \<open>main_run\<close> starts from the empty map, as
  the process does once the client is set up. The loop has no exit.
\<close>

definition main_loop :: "(error + pod list) list \<Rightarrow> dedup \<Rightarrow> dedup \<times> effect list" where
  "main_loop listings m = for_range poll listings m"

definition main_run :: "(error + pod list) list \<Rightarrow> dedup \<times> effect list" where
  "main_run listings = main_loop listings Map.empty"

text \<open>The value of \<open>notifiedRestarts\<close> after the stores of a sequence of effects.\<close>

fun replay :: "dedup \<Rightarrow> effect list \<Rightarrow> dedup" where
  "replay m [] = m"
| "replay m (Store k t # es) = replay (m(k \<mapsto> t)) es"
| "replay m (_ # es) = replay m es"

section \<open>Invariants of the detector's effects\<close>

text \<open>
  Two properties of a sequence of effects \<open>es\<close> that takes \<open>notifiedRestarts\<close> from \<open>m\<close>
  to \<open>m'\<close>. \<open>dispatch_inv\<close>: entries only grow; a dispatch has a start time later than
  the entry it found and no later than the entry it leaves; and a later dispatch for the
  same pod has a later start time. \<open>sync_inv\<close>: the map is changed by the stores only,
  and a dispatch comes right after its store and log line.
\<close>

definition dispatch_inv :: "dedup \<Rightarrow> effect list \<Rightarrow> dedup \<Rightarrow> bool" where
  "dispatch_inv m es m' \<longleftrightarrow>
     (\<forall>k l. m k = Some l \<longrightarrow> (\<exists>l'. m' k = Some l' \<and> l \<le> l'))
     \<and> (\<forall>nm ns t. Go nm ns t \<in> set es \<longrightarrow>
            (\<forall>l. m (dedup_key ns nm) = Some l \<longrightarrow> l < t)
            \<and> (\<exists>l'. m' (dedup_key ns nm) = Some l' \<and> t \<le> l'))
     \<and> (\<forall>pre nm ns t post t'.
            es = pre @ Go nm ns t # post \<and> Go nm ns t' \<in> set post \<longrightarrow> t < t')"

definition sync_inv :: "dedup \<Rightarrow> effect list \<Rightarrow> dedup \<Rightarrow> bool" where
  "sync_inv m es m' \<longleftrightarrow>
     m' = replay m es
     \<and> (\<forall>pre nm ns t post.
            es = pre @ Go nm ns t # post \<longrightarrow>
            (\<exists>pre'. pre = pre' @ [Store (dedup_key ns nm) t, Log (DetectedRestart nm ns)]))"

section \<open>Properties of the formatter\<close>

subsection \<open>The truncator\<close>

text \<open>
  Claim C5. For every string \<open>s\<close> and every character limit \<open>n\<close> (a count, so
  \<open>0 \<le> n\<close>; the program passes 1000 and 3000): when \<open>len(s) \<le> n\<close> the result is \<open>s\<close>,
  unchanged; otherwise the result is the first \<open>n\<close> characters of \<open>s\<close> followed by
  \<open>"... (truncated)"\<close>, of length \<open>n + len("... (truncated)")\<close>. The cut is at position
  \<open>n\<close> of the raw string, whatever stands around it: a word, a line or its end.
\<close>

theorem truncate_spec:
  "(int (length s) \<le> n \<longrightarrow> truncate s n = Inr s)
   \<and> (0 \<le> n \<and> n < int (length s) \<longrightarrow>
        truncate s n = Inr (take (nat n) s @ ''... (truncated)'')
        \<and> int (length (take (nat n) s @ ''... (truncated)''))
            = n + int (length ''... (truncated)''))"
  by (auto simp: truncate_def truncated_suffix_def)

theorem truncate_spec_witness:
  "(0::int) \<le> 8 \<and> 8 < int (length ''first line\<newline>second'')
   \<and> truncate ''first line\<newline>second'' 8 = Inr ''first li... (truncated)''
   \<and> truncate ''short'' 8 = Inr ''short''"
  using truncate_spec [of "''first line\<newline>second''" 8] truncate_spec [of "''short''" 8]
  by simp

subsection \<open>The loop of the code-block formatter\<close>

lemma format_loop_append:
  "format_loop (xs @ ys) acc b =
     (case format_loop xs acc b of (f, b') \<Rightarrow> format_loop ys f b')"
  by (induction xs arbitrary: acc b) (simp_all add: Let_def)

lemma format_loop_acc:
  "format_loop ls acc b = (acc @ fst (format_loop ls [] b), snd (format_loop ls [] b))"
proof (induction ls arbitrary: acc b)
  case Nil
  show ?case by simp
next
  case (Cons l ls)
  show ?case
    by (simp add: Let_def Cons.IH [of "acc @ _"] Cons.IH [of "[_]"] Cons.IH [of "[_, _]"])
qed

lemma format_loop_step:
  "format_loop (l # ls) acc b =
     format_loop ls
       (acc @ (if is_command (TrimSpace l) then (if b then [] else [fence_open])
               else (if b then [fence_close] else []))
            @ [TrimSpace l])
       (is_command (TrimSpace l))"
  by (simp add: Let_def)

lemma format_loop_commands:
  "\<forall>l \<in> set run. is_command (TrimSpace l) \<Longrightarrow>
   format_loop run acc True = (acc @ map TrimSpace run, True)"
  by (induction run arbitrary: acc) (simp_all add: Let_def)

lemma format_loop_run:
  assumes "run \<noteq> []" and "\<forall>l \<in> set run. is_command (TrimSpace l)"
  shows "format_loop run acc False = (acc @ [fence_open] @ map TrimSpace run, True)"
  using assms by (cases run) (simp_all add: Let_def format_loop_commands)

lemma format_loop_plain:
  "\<forall>l \<in> set ls. \<not> is_command (TrimSpace l) \<Longrightarrow>
   format_loop ls acc False = (acc @ map TrimSpace ls, False)"
  by (induction ls arbitrary: acc) (simp_all add: Let_def)

lemma format_loop_state:
  "snd (format_loop ls acc b) = (if ls = [] then b else is_command (TrimSpace (last ls)))"
  by (induction ls arbitrary: acc b) (simp_all add: Let_def)

lemma format_loop_close:
  assumes "rest = [] \<or> \<not> is_command (TrimSpace (hd rest))"
  shows "(case format_loop rest acc True of (f, b) \<Rightarrow> if b then f @ [fence_close] else f)
         = acc @ [fence_close] @ format_lines rest"
proof (cases rest)
  case Nil
  then show ?thesis by (simp add: format_lines_def)
next
  case (Cons l ls)
  with assms have "\<not> is_command (TrimSpace l)" by simp
  then show ?thesis
    unfolding Cons format_lines_def
    by (simp add: Let_def format_loop_acc [of ls "acc @ _"] format_loop_acc [of ls "[_]"]
        split: prod.splits)
qed

lemma format_lines_run:
  assumes "pre = [] \<or> \<not> is_command (TrimSpace (last pre))"
    and "run \<noteq> []"
    and "\<forall>l \<in> set run. is_command (TrimSpace l)"
    and "rest = [] \<or> \<not> is_command (TrimSpace (hd rest))"
  shows "format_lines (pre @ run @ rest) =
           format_lines pre @ [fence_open] @ map TrimSpace run @ [fence_close] @ format_lines rest"
proof -
  obtain f where f: "format_loop pre [] False = (f, False)"
    using assms(1) format_loop_state [of pre "[]" False]
    by (cases "format_loop pre [] False") auto
  then have pre: "format_lines pre = f"
    by (simp add: format_lines_def)
  have "format_lines (pre @ run @ rest) =
        (case format_loop rest (f @ [fence_open] @ map TrimSpace run) True of
           (g, b) \<Rightarrow> if b then g @ [fence_close] else g)"
    by (simp add: format_lines_def format_loop_append f format_loop_run [OF assms(2,3)])
  also have "\<dots> = (f @ [fence_open] @ map TrimSpace run) @ [fence_close] @ format_lines rest"
    by (rule format_loop_close [OF assms(4)])
  finally show ?thesis by (simp add: pre)
qed

lemma format_loop_subseq:
  "subseq (map TrimSpace ls) (fst (format_loop ls [] b))"
proof (induction ls arbitrary: b)
  case Nil
  show ?case by simp
next
  case (Cons l ls)
  define c where "c = is_command (TrimSpace l)"
  define pre where
    "pre = (if c then (if b then [] else [fence_open]) else (if b then [fence_close] else []))"
  have "fst (format_loop (l # ls) [] b) = pre @ TrimSpace l # fst (format_loop ls [] c)"
    unfolding format_loop_step [of l ls "[]" b] pre_def c_def
    by (subst format_loop_acc) simp
  moreover have
    "subseq (TrimSpace l # map TrimSpace ls) (pre @ TrimSpace l # fst (format_loop ls [] c))"
    by (intro subseq_drop_many subseq_Cons2 Cons.IH)
  ultimately show ?case by simp
qed

lemma format_loop_lines:
  "set (fst (format_loop ls [] b)) \<subseteq> {fence_open, fence_close} \<union> TrimSpace ` set ls"
proof (induction ls arbitrary: b)
  case Nil
  show ?case by simp
next
  case (Cons l ls)
  show ?case
    using Cons.IH [of True] Cons.IH [of False]
    by (auto simp: Let_def format_loop_acc [of ls "[_]"] format_loop_acc [of ls "[_, _]"])
qed

lemma format_lines_members:
  "set (format_lines lines) \<subseteq> {fence_open, fence_close} \<union> TrimSpace ` set lines"
proof -
  obtain f b where fb: "format_loop lines [] False = (f, b)"
    by (cases "format_loop lines [] False")
  with format_loop_lines [of lines False]
  have "set f \<subseteq> {fence_open, fence_close} \<union> TrimSpace ` set lines"
    by simp
  then show ?thesis
    by (auto simp: format_lines_def fb)
qed

subsection \<open>White space at the ends of a trimmed string\<close>

lemma space_runes_nonempty: "w \<in> set space_runes \<Longrightarrow> w \<noteq> []"
  by (auto simp: space_runes_def)

lemma leading_space_zero:
  "leading_space s = 0 \<longleftrightarrow> (\<forall>w \<in> set space_runes. \<not> HasPrefix s w)"
proof (cases "find (HasPrefix s) space_runes")
  case None
  then have "\<forall>w \<in> set space_runes. \<not> HasPrefix s w"
    by (auto simp: find_None_iff)
  with None show ?thesis
    by (simp add: leading_space_def)
next
  case (Some w)
  then have "w \<in> set space_runes" and "HasPrefix s w"
    by (auto simp: find_Some_iff)
  with Some space_runes_nonempty [of w] show ?thesis
    by (auto simp: leading_space_def)
qed

lemma leading_space_TrimLeft: "leading_space (TrimLeft s) = 0"
  by (induction s rule: TrimLeft.induct) (subst TrimLeft.simps, simp)

lemma trailing_space_TrimRight: "trailing_space (TrimRight s) = 0"
  by (induction s rule: TrimRight.induct) (subst TrimRight.simps, simp)

lemma HasPrefix_take: "HasPrefix (take k s) w \<Longrightarrow> HasPrefix s w"
  by (auto simp: HasPrefix_def min_def split: if_splits)

lemma leading_space_take: "leading_space s = 0 \<Longrightarrow> leading_space (take k s) = 0"
  by (auto simp: leading_space_zero dest: HasPrefix_take)

lemma leading_space_TrimRight: "leading_space s = 0 \<Longrightarrow> leading_space (TrimRight s) = 0"
  by (induction s rule: TrimRight.induct) (subst TrimRight.simps, simp add: leading_space_take)

lemma TrimSpace_idem: "TrimSpace (TrimSpace s) = TrimSpace s"
proof -
  have "leading_space (TrimSpace s) = 0"
    by (simp add: TrimSpace_def leading_space_TrimRight leading_space_TrimLeft)
  then have "TrimLeft (TrimSpace s) = TrimSpace s"
    by (subst TrimLeft.simps) simp
  moreover have "trailing_space (TrimSpace s) = 0"
    by (simp add: TrimSpace_def trailing_space_TrimRight)
  then have "TrimRight (TrimSpace s) = TrimSpace s"
    by (subst TrimRight.simps) simp
  ultimately show ?thesis
    by (simp add: TrimSpace_def [of "TrimSpace s"])
qed

lemma TrimSpace_fence_open: "TrimSpace fence_open = fence_open"
  by code_simp

lemma TrimSpace_fence_close: "TrimSpace fence_close = fence_close"
  by code_simp

subsection \<open>The lines of the formatted text\<close>

lemma Split_nonempty: "Split s \<noteq> []"
  by (cases s) (simp_all split: list.splits)

lemma Split_no_newline: "l \<in> set (Split s) \<Longrightarrow> newline \<notin> set l"
proof (induction s arbitrary: l)
  case Nil
  then show ?case by simp
next
  case (Cons c cs)
  show ?case
  proof (cases "c = newline")
    case True
    with Cons show ?thesis by auto
  next
    case False
    obtain l0 ls where s: "Split cs = l0 # ls"
      using Split_nonempty [of cs] by (cases "Split cs") auto
    with Cons.prems False have "l = c # l0 \<or> l \<in> set ls" by simp
    with Cons.IH [of l0] Cons.IH [of l] s False show ?thesis by auto
  qed
qed

lemma Split_line_then: "newline \<notin> set l \<Longrightarrow> Split (l @ newline # rest) = l # Split rest"
proof (induction l)
  case Nil
  show ?case by simp
next
  case (Cons c l)
  then show ?case by auto
qed

lemma Split_line: "newline \<notin> set l \<Longrightarrow> Split l = [l]"
  by (induction l) auto

lemma Split_Join:
  "ls \<noteq> [] \<Longrightarrow> \<forall>l \<in> set ls. newline \<notin> set l \<Longrightarrow> Split (Join ls) = ls"
proof (induction ls rule: Join.induct)
  case 1
  then show ?case by simp
next
  case (2 l)
  then show ?case by (simp add: Split_line)
next
  case (3 l l' ls)
  then show ?case by (simp add: Split_line_then)
qed

lemma set_TrimLeft: "set (TrimLeft s) \<subseteq> set s"
proof (induction s rule: TrimLeft.induct)
  case (1 s)
  show ?case
  proof (cases "leading_space s = 0")
    case True
    then show ?thesis by (subst TrimLeft.simps) simp
  next
    case False
    with 1 have "set (TrimLeft (drop (leading_space s) s)) \<subseteq> set (drop (leading_space s) s)"
      by simp
    also have "\<dots> \<subseteq> set s" by (rule set_drop_subset)
    finally show ?thesis using False by (subst TrimLeft.simps) simp
  qed
qed

lemma set_TrimRight: "set (TrimRight s) \<subseteq> set s"
proof (induction s rule: TrimRight.induct)
  case (1 s)
  show ?case
  proof (cases "trailing_space s = 0")
    case True
    then show ?thesis by (subst TrimRight.simps) simp
  next
    case False
    with 1 have "set (TrimRight (take (length s - trailing_space s) s))
                 \<subseteq> set (take (length s - trailing_space s) s)"
      by simp
    also have "\<dots> \<subseteq> set s" by (rule set_take_subset)
    finally show ?thesis using False by (subst TrimRight.simps) simp
  qed
qed

lemma set_TrimSpace: "set (TrimSpace s) \<subseteq> set s"
  using set_TrimRight [of "TrimLeft s"] set_TrimLeft [of s] by (auto simp: TrimSpace_def)

lemma format_lines_subseq: "subseq (map TrimSpace lines) (format_lines lines)"
proof -
  obtain f b where fb: "format_loop lines [] False = (f, b)"
    by (cases "format_loop lines [] False")
  with format_loop_subseq [of lines False] have f: "subseq (map TrimSpace lines) f"
    by simp
  then have "subseq (map TrimSpace lines) (f @ [fence_close])"
    by (rule subseq_rev_drop_many)
  with f show ?thesis
    by (simp add: format_lines_def fb)
qed

lemma format_lines_nonempty: "lines \<noteq> [] \<Longrightarrow> format_lines lines \<noteq> []"
  using format_lines_subseq [of lines, THEN list_emb_length] by auto

lemma format_lines_no_newline:
  assumes "\<forall>l \<in> set lines. newline \<notin> set l" and "out \<in> set (format_lines lines)"
  shows "newline \<notin> set out"
proof -
  from assms(2) format_lines_members [of lines]
  consider "out = fence_open" | "out = fence_close" | l where "l \<in> set lines" "out = TrimSpace l"
    by auto
  then show ?thesis
  proof cases
    case 1
    then show ?thesis by (simp add: fence_open_def newline_def)
  next
    case 2
    then show ?thesis by (simp add: fence_close_def newline_def)
  next
    case 3
    with assms(1) set_TrimSpace [of l] show ?thesis by auto
  qed
qed

lemma Split_formatCodeBlocks: "Split (formatCodeBlocks txt) = format_lines (Split txt)"
  unfolding formatCodeBlocks_def
proof (rule Split_Join)
  show "format_lines (Split txt) \<noteq> []"
    by (simp add: format_lines_nonempty Split_nonempty)
  show "\<forall>l \<in> set (format_lines (Split txt)). newline \<notin> set l"
    using format_lines_no_newline [of "Split txt"] Split_no_newline [of _ "txt"] by blast
qed

subsection \<open>The code-block formatter\<close>

text \<open>
  Claim C6. Take the lines \<open>pre @ run @ rest\<close>, where \<open>run\<close> is a non-empty run of lines
  whose trimmed content starts with \<open>"kubectl "\<close> or \<open>"bash "\<close>, the line before the run
  (if any) is not such a line, and neither is the line after it (if any). Then the output
  lines are those for \<open>pre\<close>, one opening fence, the trimmed lines of the run, one closing
  fence, and those for \<open>rest\<close>: the run shares one fence, closed at the first line that is
  not recognized or at the end of the input. On the lines \<open>"kubectl get pods"\<close>,
  \<open>"kubectl describe pod x"\<close>, \<open>"done"\<close> the output is exactly the opening fence, the two
  commands, the closing fence and \<open>"done"\<close>, as lines and as joined text.
\<close>

theorem formatCodeBlocks_shared_fence:
  "((pre = [] \<or> \<not> is_command (TrimSpace (last pre)))
      \<and> run \<noteq> [] \<and> (\<forall>l \<in> set run. is_command (TrimSpace l))
      \<and> (rest = [] \<or> \<not> is_command (TrimSpace (hd rest)))
    \<longrightarrow> format_lines (pre @ run @ rest) =
          format_lines pre @ [''```bash''] @ map TrimSpace run @ [''```''] @ format_lines rest)
   \<and> format_lines [''kubectl get pods'', ''kubectl describe pod x'', ''done''] =
         [''```bash'', ''kubectl get pods'', ''kubectl describe pod x'', ''```'', ''done'']
   \<and> formatCodeBlocks ''kubectl get pods\<newline>kubectl describe pod x\<newline>done'' =
         ''```bash\<newline>kubectl get pods\<newline>kubectl describe pod x\<newline>```\<newline>done''"
proof (intro conjI impI)
  assume "(pre = [] \<or> \<not> is_command (TrimSpace (last pre)))
      \<and> run \<noteq> [] \<and> (\<forall>l \<in> set run. is_command (TrimSpace l))
      \<and> (rest = [] \<or> \<not> is_command (TrimSpace (hd rest)))"
  then show "format_lines (pre @ run @ rest) =
          format_lines pre @ [''```bash''] @ map TrimSpace run @ [''```''] @ format_lines rest"
    using format_lines_run [of pre run rest] by (simp add: fence_open_def fence_close_def)
next
  show "format_lines [''kubectl get pods'', ''kubectl describe pod x'', ''done''] =
         [''```bash'', ''kubectl get pods'', ''kubectl describe pod x'', ''```'', ''done'']"
    by code_simp
next
  show "formatCodeBlocks ''kubectl get pods\<newline>kubectl describe pod x\<newline>done'' =
         ''```bash\<newline>kubectl get pods\<newline>kubectl describe pod x\<newline>```\<newline>done''"
    by code_simp
qed

theorem formatCodeBlocks_shared_fence_witness:
  "format_lines ([''Run these:''] @ [''  kubectl get pods'', ''bash fix.sh  '']
                 @ [''then wait'', ''kubectl logs x'']) =
     [''Run these:'', ''```bash'', ''kubectl get pods'', ''bash fix.sh'', ''```'', ''then wait'',
      ''```bash'', ''kubectl logs x'', ''```'']"
proof -
  have h: "([''Run these:''] = [] \<or> \<not> is_command (TrimSpace (last [''Run these:''])))
      \<and> [''  kubectl get pods'', ''bash fix.sh  ''] \<noteq> []
      \<and> (\<forall>l \<in> set [''  kubectl get pods'', ''bash fix.sh  '']. is_command (TrimSpace l))
      \<and> ([''then wait'', ''kubectl logs x''] = []
          \<or> \<not> is_command (TrimSpace (hd [''then wait'', ''kubectl logs x''])))"
    by code_simp
  have e1: "format_lines [''Run these:''] = [''Run these:'']"
    by code_simp
  have e2: "format_lines [''then wait'', ''kubectl logs x''] =
              [''then wait'', ''```bash'', ''kubectl logs x'', ''```'']"
    by code_simp
  have e3: "map TrimSpace [''  kubectl get pods'', ''bash fix.sh  ''] =
              [''kubectl get pods'', ''bash fix.sh'']"
    by code_simp
  from formatCodeBlocks_shared_fence
         [of "[''Run these:'']" "[''  kubectl get pods'', ''bash fix.sh  '']"
             "[''then wait'', ''kubectl logs x'']",
          THEN conjunct1, rule_format, OF h]
  show ?thesis unfolding e1 e2 e3 by simp
qed

text \<open>
  Claim C10. The lines of the text that \<open>formatCodeBlocks\<close> returns are the fences it
  adds and the trimmed forms of the lines of its input, nothing else: the trimmed forms
  of all input lines occur among the output lines, in their order; every output line is
  a fence or the trimmed form of an input line, and has no white space left at either
  end; and when no input line is recognized as a command, so that no fence is opened, the
  output is exactly the trimmed input lines, joined by newlines.
\<close>

theorem formatCodeBlocks_trims_every_line:
  "Split (formatCodeBlocks txt) = format_lines (Split txt)
   \<and> subseq (map TrimSpace (Split txt)) (Split (formatCodeBlocks txt))
   \<and> set (Split (formatCodeBlocks txt)) \<subseteq> {''```bash'', ''```''} \<union> TrimSpace ` set (Split txt)
   \<and> (\<forall>out \<in> set (Split (formatCodeBlocks txt)). TrimSpace out = out)
   \<and> ((\<forall>l \<in> set (Split txt). \<not> is_command (TrimSpace l)) \<longrightarrow>
        Split (formatCodeBlocks txt) = map TrimSpace (Split txt)
        \<and> formatCodeBlocks txt = Join (map TrimSpace (Split txt)))"
proof (intro conjI impI ballI)
  show "Split (formatCodeBlocks txt) = format_lines (Split txt)"
    by (rule Split_formatCodeBlocks)
next
  show "subseq (map TrimSpace (Split txt)) (Split (formatCodeBlocks txt))"
    unfolding Split_formatCodeBlocks by (rule format_lines_subseq)
next
  show "set (Split (formatCodeBlocks txt))
          \<subseteq> {''```bash'', ''```''} \<union> TrimSpace ` set (Split txt)"
    unfolding Split_formatCodeBlocks
    using format_lines_members [of "Split txt"] by (simp add: fence_open_def fence_close_def)
next
  fix out
  assume "out \<in> set (Split (formatCodeBlocks txt))"
  then have "out \<in> set (format_lines (Split txt))"
    by (simp add: Split_formatCodeBlocks)
  with format_lines_members [of "Split txt"]
  have "out = fence_open \<or> out = fence_close \<or> out \<in> TrimSpace ` set (Split txt)"
    by auto
  then show "TrimSpace out = out"
    by (auto simp: TrimSpace_fence_open TrimSpace_fence_close TrimSpace_idem)
next
  assume plain: "\<forall>l \<in> set (Split txt). \<not> is_command (TrimSpace l)"
  then have eq: "format_lines (Split txt) = map TrimSpace (Split txt)"
    by (simp add: format_lines_def format_loop_plain)
  then show "Split (formatCodeBlocks txt) = map TrimSpace (Split txt)"
    by (simp add: Split_formatCodeBlocks)
  from eq show "formatCodeBlocks txt = Join (map TrimSpace (Split txt))"
    by (simp add: formatCodeBlocks_def)
qed

theorem formatCodeBlocks_trims_every_line_witness:
  "formatCodeBlocks (''  Root cause:'' @ [newline, CHR 0x09] @ ''  - out of memory  '') =
     ''Root cause:'' @ [newline] @ ''- out of memory''
   \<and> Split (formatCodeBlocks (''  Root cause:'' @ [newline, CHR 0x09] @ ''  - out of memory  '')) =
       [''Root cause:'', ''- out of memory'']
   \<and> TrimSpace ''- out of memory'' = ''- out of memory''"
proof -
  let ?txt = "''  Root cause:'' @ [newline, CHR 0x09] @ ''  - out of memory  ''"
  have h: "\<forall>l \<in> set (Split ?txt). \<not> is_command (TrimSpace l)"
    by code_simp
  have m: "map TrimSpace (Split ?txt) = [''Root cause:'', ''- out of memory'']"
    by code_simp
  note t = formatCodeBlocks_trims_every_line [of ?txt]
  from t h have r: "Split (formatCodeBlocks ?txt) = [''Root cause:'', ''- out of memory'']"
    and j: "formatCodeBlocks ?txt = Join [''Root cause:'', ''- out of memory'']"
    unfolding m by blast+
  from t have "\<forall>out \<in> set (Split (formatCodeBlocks ?txt)). TrimSpace out = out"
    by blast
  then have "TrimSpace ''- out of memory'' = ''- out of memory''"
    unfolding r by simp
  with r j show ?thesis by simp
qed

section \<open>Properties of the restart detector\<close>

subsection \<open>Sequences of effects\<close>

lemma append_eq_split:
  "a @ b = pre @ x # post \<Longrightarrow>
     (\<exists>post'. a = pre @ x # post' \<and> post = post' @ b)
     \<or> (\<exists>pre'. pre = a @ pre' \<and> b = pre' @ x # post)"
proof (induction a arbitrary: pre)
  case Nil
  then show ?case by simp
next
  case (Cons y a)
  show ?case
  proof (cases pre)
    case Nil
    with Cons.prems show ?thesis by simp
  next
    case (Cons z pre2)
    with Cons.prems have "a @ b = pre2 @ x # post" and "y = z" by simp_all
    with Cons.IH [of pre2] Cons show ?thesis by auto
  qed
qed

lemma replay_append: "replay m (a @ b) = replay (replay m a) b"
proof (induction a arbitrary: m)
  case Nil
  show ?case by simp
next
  case (Cons e a)
  show ?case
  proof (cases e)
    case (Store k t)
    have "replay m ((Store k t # a) @ b) = replay (m(k \<mapsto> t)) (a @ b)"
      by simp
    also have "\<dots> = replay (replay (m(k \<mapsto> t)) a) b"
      by (rule Cons.IH)
    also have "\<dots> = replay (replay m (Store k t # a)) b"
      by simp
    finally show ?thesis
      unfolding Store .
  qed (use Cons.IH [of m] in simp_all)
qed

lemma for_range_inv:
  assumes body: "\<And>x m. P m (snd (body x m)) (fst (body x m))"
    and empty: "\<And>m. P m [] m"
    and seq: "\<And>m a m1 b m2. P m a m1 \<Longrightarrow> P m1 b m2 \<Longrightarrow> P m (a @ b) m2"
  shows "P m (snd (for_range body xs m)) (fst (for_range body xs m))"
proof (induction xs arbitrary: m)
  case Nil
  show ?case by (simp add: empty)
next
  case (Cons x xs)
  obtain m1 es1 where b: "body x m = (m1, es1)"
    by (cases "body x m")
  obtain m2 es2 where r: "for_range body xs m1 = (m2, es2)"
    by (cases "for_range body xs m1")
  from body [of m x] b have "P m es1 m1" by simp
  moreover from Cons.IH [of m1] r have "P m1 es2 m2" by simp
  ultimately have "P m (es1 @ es2) m2" by (rule seq)
  then show ?case by (simp add: b r)
qed

subsection \<open>Dispatches have increasing start times\<close>

lemma dispatch_inv_empty: "dispatch_inv m [] m"
  by (simp add: dispatch_inv_def)

lemma dispatch_inv_quiet:
  "\<forall>nm ns t. Go nm ns t \<notin> set es \<Longrightarrow> dispatch_inv m es m"
  by (auto simp: dispatch_inv_def)

lemma dispatch_inv_seq:
  assumes a: "dispatch_inv m a m1" and b: "dispatch_inv m1 b m2"
  shows "dispatch_inv m (a @ b) m2"
  unfolding dispatch_inv_def
proof (intro conjI allI impI)
  fix k l
  assume "m k = Some l"
  with a obtain l1 where "m1 k = Some l1" "l \<le> l1"
    unfolding dispatch_inv_def by blast
  moreover with b obtain l2 where "m2 k = Some l2" "l1 \<le> l2"
    unfolding dispatch_inv_def by blast
  ultimately show "\<exists>l'. m2 k = Some l' \<and> l \<le> l'" by auto
next
  fix nm ns t l
  assume go: "Go nm ns t \<in> set (a @ b)" and l: "m (dedup_key ns nm) = Some l"
  from go consider "Go nm ns t \<in> set a" | "Go nm ns t \<in> set b" by auto
  then show "l < t"
  proof cases
    case 1
    with a l show ?thesis unfolding dispatch_inv_def by blast
  next
    case 2
    from a l obtain l1 where "m1 (dedup_key ns nm) = Some l1" "l \<le> l1"
      unfolding dispatch_inv_def by blast
    moreover with b 2 have "l1 < t" unfolding dispatch_inv_def by blast
    ultimately show ?thesis by simp
  qed
next
  fix nm ns t
  assume go: "Go nm ns t \<in> set (a @ b)"
  from go consider "Go nm ns t \<in> set a" | "Go nm ns t \<in> set b" by auto
  then show "\<exists>l'. m2 (dedup_key ns nm) = Some l' \<and> t \<le> l'"
  proof cases
    case 1
    with a obtain l1 where "m1 (dedup_key ns nm) = Some l1" "t \<le> l1"
      unfolding dispatch_inv_def by blast
    moreover with b obtain l2 where "m2 (dedup_key ns nm) = Some l2" "l1 \<le> l2"
      unfolding dispatch_inv_def by blast
    ultimately show ?thesis by auto
  next
    case 2
    with b show ?thesis unfolding dispatch_inv_def by blast
  qed
next
  fix pre nm ns t post t'
  assume "a @ b = pre @ Go nm ns t # post \<and> Go nm ns t' \<in> set post"
  then have eq: "a @ b = pre @ Go nm ns t # post" and later: "Go nm ns t' \<in> set post"
    by simp_all
  from append_eq_split [OF eq] show "t < t'"
  proof (elim disjE exE conjE)
    fix post'
    assume pa: "a = pre @ Go nm ns t # post'" and "post = post' @ b"
    with later consider "Go nm ns t' \<in> set post'" | "Go nm ns t' \<in> set b" by auto
    then show ?thesis
    proof cases
      case 1
      with a pa show ?thesis unfolding dispatch_inv_def by blast
    next
      case 2
      from pa have "Go nm ns t \<in> set a" by simp
      with a obtain l1 where "m1 (dedup_key ns nm) = Some l1" "t \<le> l1"
        unfolding dispatch_inv_def by blast
      moreover with b 2 have "l1 < t'" unfolding dispatch_inv_def by blast
      ultimately show ?thesis by simp
    qed
  next
    fix pre'
    assume "pre = a @ pre'" and "b = pre' @ Go nm ns t # post"
    with b later show ?thesis unfolding dispatch_inv_def by blast
  qed
qed


lemma dispatch_inv_check_container:
  "dispatch_inv m (snd (check_container p cs m)) (fst (check_container p cs m))"
proof (cases "snd (check_container p cs m) = []")
  case True
  then have "fst (check_container p cs m) = m"
    by (auto simp: check_container_def Let_def split: if_splits option.splits)
  with True show ?thesis by (simp add: dispatch_inv_empty)
next
  case False
  define key where "key = dedup_key (Namespace p) (Name p)"
  from False obtain t where t: "StartTime p = Some t"
    and fresh: "\<forall>l. m key = Some l \<longrightarrow> l < t"
    and res: "check_container p cs m =
                (m(key \<mapsto> t), [Store key t, Log (DetectedRestart (Name p) (Namespace p)),
                                 Go (Name p) (Namespace p) t])"
    by (auto simp: check_container_def Let_def After_def key_def split: if_splits option.splits)
  show ?thesis
    unfolding res dispatch_inv_def fst_conv snd_conv
  proof (intro conjI allI impI)
    fix k l
    assume "m k = Some l"
    with fresh show "\<exists>l'. (m(key \<mapsto> t)) k = Some l' \<and> l \<le> l'"
      by (cases "k = key") auto
  next
    fix nm ns t' l
    assume "Go nm ns t' \<in> set [Store key t, Log (DetectedRestart (Name p) (Namespace p)),
                                 Go (Name p) (Namespace p) t]"
      and "m (dedup_key ns nm) = Some l"
    with fresh show "l < t'" by (simp add: key_def)
  next
    fix nm ns t'
    assume "Go nm ns t' \<in> set [Store key t, Log (DetectedRestart (Name p) (Namespace p)),
                                 Go (Name p) (Namespace p) t]"
    then show "\<exists>l'. (m(key \<mapsto> t)) (dedup_key ns nm) = Some l' \<and> t' \<le> l'"
      by (simp add: key_def)
  next
    fix pre nm ns t1 post t2
    assume "[Store key t, Log (DetectedRestart (Name p) (Namespace p)),
             Go (Name p) (Namespace p) t] = pre @ Go nm ns t1 # post
            \<and> Go nm ns t2 \<in> set post"
    then show "t1 < t2"
      by (auto simp: Cons_eq_append_conv)
  qed
qed

lemma dispatch_inv_for_range:
  assumes "\<And>x m. dispatch_inv m (snd (body x m)) (fst (body x m))"
  shows "dispatch_inv m (snd (for_range body xs m)) (fst (for_range body xs m))"
  using assms dispatch_inv_empty dispatch_inv_seq
  by (rule for_range_inv [where P = dispatch_inv])

lemma dispatch_inv_scan_pods:
  "dispatch_inv m (snd (scan_pods items m)) (fst (scan_pods items m))"
  unfolding scan_pods_def
  by (intro dispatch_inv_for_range, unfold scan_pod_def)
     (intro dispatch_inv_for_range dispatch_inv_check_container)

lemma dispatch_inv_poll: "dispatch_inv m (snd (poll listing m)) (fst (poll listing m))"
proof (cases listing)
  case (Inl err)
  then show ?thesis
    by (simp add: poll_def dispatch_inv_quiet)
next
  case (Inr items)
  obtain m' es where s: "scan_pods items m = (m', es)"
    by (cases "scan_pods items m")
  with dispatch_inv_scan_pods [of m items] have b: "dispatch_inv m es m'" by simp
  have a: "dispatch_inv m [ListPods] m"
    by (simp add: dispatch_inv_quiet)
  have c: "dispatch_inv m' [Sleep CHECK_INTERVAL] m'"
    by (simp add: dispatch_inv_quiet)
  from dispatch_inv_seq [OF a dispatch_inv_seq [OF b c]] show ?thesis
    by (simp add: poll_def Inr s)
qed

lemma dispatch_inv_main_loop:
  "dispatch_inv m (snd (main_loop listings m)) (fst (main_loop listings m))"
  unfolding main_loop_def by (intro dispatch_inv_for_range dispatch_inv_poll)

lemma once_in_list:
  assumes "\<And>pre post. es = pre @ x # post \<Longrightarrow> x \<notin> set post"
  shows "length (filter (\<lambda>e. e = x) es) \<le> 1"
  using assms
proof (induction es)
  case Nil
  show ?case by simp
next
  case (Cons y ys)
  have ih: "length (filter (\<lambda>e. e = x) ys) \<le> 1"
  proof (rule Cons.IH)
    fix pre post
    assume "ys = pre @ x # post"
    then have "y # ys = (y # pre) @ x # post" by simp
    then show "x \<notin> set post" by (rule Cons.prems)
  qed
  show ?case
  proof (cases "y = x")
    case True
    with Cons.prems [of "[]" ys] have "x \<notin> set ys" by simp
    then have "filter (\<lambda>e. e = x) ys = []"
      by (auto simp: filter_empty_conv)
    with True show ?thesis by simp
  next
    case False
    with ih show ?thesis by simp
  qed
qed

subsection \<open>A dispatch follows its store\<close>

lemma sync_inv_empty: "sync_inv m [] m"
  by (simp add: sync_inv_def)

lemma sync_inv_quiet:
  assumes "e \<noteq> Go nm ns t" "\<And>nm ns t. e \<noteq> Go nm ns t" "\<And>k t. e \<noteq> Store k t"
  shows "sync_inv m [e] m"
  using assms by (cases e) (auto simp: sync_inv_def Cons_eq_append_conv)

lemma sync_inv_seq:
  assumes a: "sync_inv m a m1" and b: "sync_inv m1 b m2"
  shows "sync_inv m (a @ b) m2"
  unfolding sync_inv_def
proof (intro conjI allI impI)
  from a b show "m2 = replay m (a @ b)"
    by (simp add: sync_inv_def replay_append)
next
  fix pre nm ns t post
  assume "a @ b = pre @ Go nm ns t # post"
  from append_eq_split [OF this]
  show "\<exists>pre'. pre = pre' @ [Store (dedup_key ns nm) t, Log (DetectedRestart nm ns)]"
  proof (elim disjE exE conjE)
    fix post'
    assume "a = pre @ Go nm ns t # post'"
    with a show ?thesis unfolding sync_inv_def by blast
  next
    fix pre2
    assume pre: "pre = a @ pre2" and "b = pre2 @ Go nm ns t # post"
    with b obtain p where "pre2 = p @ [Store (dedup_key ns nm) t, Log (DetectedRestart nm ns)]"
      unfolding sync_inv_def by blast
    with pre have "pre = (a @ p) @ [Store (dedup_key ns nm) t, Log (DetectedRestart nm ns)]"
      by simp
    then show ?thesis by blast
  qed
qed

lemma sync_inv_check_container:
  "sync_inv m (snd (check_container p cs m)) (fst (check_container p cs m))"
proof (cases "snd (check_container p cs m) = []")
  case True
  then have "fst (check_container p cs m) = m"
    by (auto simp: check_container_def Let_def split: if_splits option.splits)
  with True show ?thesis by (simp add: sync_inv_empty)
next
  case False
  define key where "key = dedup_key (Namespace p) (Name p)"
  from False obtain t where
    res: "check_container p cs m =
            (m(key \<mapsto> t), [Store key t, Log (DetectedRestart (Name p) (Namespace p)),
                             Go (Name p) (Namespace p) t])"
    by (auto simp: check_container_def Let_def key_def split: if_splits option.splits)
  show ?thesis
    unfolding res sync_inv_def fst_conv snd_conv
  proof (intro conjI allI impI)
    show "m(key \<mapsto> t) = replay m [Store key t, Log (DetectedRestart (Name p) (Namespace p)),
                                    Go (Name p) (Namespace p) t]"
      by simp
  next
    fix pre nm ns t' post
    assume "[Store key t, Log (DetectedRestart (Name p) (Namespace p)),
             Go (Name p) (Namespace p) t] = pre @ Go nm ns t' # post"
    then have "pre = [] @ [Store (dedup_key ns nm) t', Log (DetectedRestart nm ns)]"
      by (auto simp: Cons_eq_append_conv key_def)
    then show "\<exists>pre'. pre = pre' @ [Store (dedup_key ns nm) t', Log (DetectedRestart nm ns)]"
      by blast
  qed
qed

lemma sync_inv_for_range:
  assumes "\<And>x m. sync_inv m (snd (body x m)) (fst (body x m))"
  shows "sync_inv m (snd (for_range body xs m)) (fst (for_range body xs m))"
  using assms sync_inv_empty sync_inv_seq
  by (rule for_range_inv [where P = sync_inv])

lemma sync_inv_scan_pods:
  "sync_inv m (snd (scan_pods items m)) (fst (scan_pods items m))"
  unfolding scan_pods_def
  by (intro sync_inv_for_range, unfold scan_pod_def)
     (intro sync_inv_for_range sync_inv_check_container)

lemma sync_inv_poll: "sync_inv m (snd (poll listing m)) (fst (poll listing m))"
proof (cases listing)
  case (Inl err)
  have "sync_inv m [ListPods] m" "sync_inv m [Log (FetchPodsError err)] m"
    by (simp_all add: sync_inv_quiet)
  then have "sync_inv m ([ListPods] @ [Log (FetchPodsError err)]) m"
    by (rule sync_inv_seq)
  with Inl show ?thesis
    by (simp add: poll_def)
next
  case (Inr items)
  obtain m' es where s: "scan_pods items m = (m', es)"
    by (cases "scan_pods items m")
  with sync_inv_scan_pods [of m items] have b: "sync_inv m es m'" by simp
  have a: "sync_inv m [ListPods] m"
    by (simp add: sync_inv_quiet)
  have c: "sync_inv m' [Sleep CHECK_INTERVAL] m'"
    by (simp add: sync_inv_quiet)
  from sync_inv_seq [OF a sync_inv_seq [OF b c]] show ?thesis
    by (simp add: poll_def Inr s)
qed

lemma sync_inv_main_loop:
  "sync_inv m (snd (main_loop listings m)) (fst (main_loop listings m))"
  unfolding main_loop_def by (intro sync_inv_for_range sync_inv_poll)

subsection \<open>The loop of \<open>main\<close>\<close>

text \<open>
  The scenario of three polls: a pod with one restart and start time 1000, the same
  again, then a second restart with start time 2000.
\<close>

lemma scenario_trace:
  "snd (main_loop
          [Inr [\<lparr>Namespace = ''ns'', Name = ''app-1'', StartTime = Some 1000,
                 ContainerStatuses = [\<lparr>RestartCount = 1\<rparr>]\<rparr>],
           Inr [\<lparr>Namespace = ''ns'', Name = ''app-1'', StartTime = Some 1000,
                 ContainerStatuses = [\<lparr>RestartCount = 1\<rparr>]\<rparr>],
           Inr [\<lparr>Namespace = ''ns'', Name = ''app-1'', StartTime = Some 2000,
                 ContainerStatuses = [\<lparr>RestartCount = 2\<rparr>]\<rparr>]]
          Map.empty) =
     [ListPods, Store ''ns/app-1'' 1000, Log (DetectedRestart ''app-1'' ''ns'')]
     @ Go ''app-1'' ''ns'' 1000
     # [Sleep 30000000000, ListPods, Sleep 30000000000, ListPods,
        Store ''ns/app-1'' 2000, Log (DetectedRestart ''app-1'' ''ns''),
        Go ''app-1'' ''ns'' 2000, Sleep 30000000000]"
  by code_simp

text \<open>
  Claim C1. In the effects of any number of iterations of the loop, from any value of
  \<open>notifiedRestarts\<close>, on any results of the listing call: after a dispatch for the pod
  \<open>(ns, nm)\<close> with start time \<open>T\<close>, every later dispatch for the same pod has a start
  time \<open>T'\<close> strictly greater than \<open>T\<close>; so the dispatch for \<open>(ns, nm)\<close> with start time
  \<open>T\<close> occurs at most once, however many polls observe that pair.
\<close>

theorem dispatch_only_for_later_start_time:
  "(snd (main_loop listings m) = pre @ Go nm ns T # post \<and> Go nm ns T' \<in> set post
      \<longrightarrow> T < T')
   \<and> length (filter (\<lambda>e. e = Go nm ns T) (snd (main_loop listings m))) \<le> 1"
proof (intro conjI impI)
  assume "snd (main_loop listings m) = pre @ Go nm ns T # post \<and> Go nm ns T' \<in> set post"
  with dispatch_inv_main_loop [of m listings] show "T < T'"
    unfolding dispatch_inv_def by blast
next
  show "length (filter (\<lambda>e. e = Go nm ns T) (snd (main_loop listings m))) \<le> 1"
  proof (rule once_in_list)
    fix pre post
    assume "snd (main_loop listings m) = pre @ Go nm ns T # post"
    with dispatch_inv_main_loop [of m listings]
    have "Go nm ns T \<in> set post \<longrightarrow> T < T"
      unfolding dispatch_inv_def by blast
    then show "Go nm ns T \<notin> set post" by auto
  qed
qed

theorem dispatch_only_for_later_start_time_witness:
  "Go ''app-1'' ''ns'' 2000 \<in> set
     [Sleep 30000000000, ListPods, Sleep 30000000000, ListPods,
      Store ''ns/app-1'' 2000, Log (DetectedRestart ''app-1'' ''ns''),
      Go ''app-1'' ''ns'' 2000, Sleep 30000000000]
   \<and> (1000 :: time) < 2000
   \<and> length (filter (\<lambda>e. e = Go ''app-1'' ''ns'' 1000)
        (snd (main_loop
          [Inr [\<lparr>Namespace = ''ns'', Name = ''app-1'', StartTime = Some 1000,
                 ContainerStatuses = [\<lparr>RestartCount = 1\<rparr>]\<rparr>],
           Inr [\<lparr>Namespace = ''ns'', Name = ''app-1'', StartTime = Some 1000,
                 ContainerStatuses = [\<lparr>RestartCount = 1\<rparr>]\<rparr>],
           Inr [\<lparr>Namespace = ''ns'', Name = ''app-1'', StartTime = Some 2000,
                 ContainerStatuses = [\<lparr>RestartCount = 2\<rparr>]\<rparr>]]
          Map.empty))) \<le> 1"
proof -
  have later: "Go ''app-1'' ''ns'' 2000 \<in> set
     [Sleep 30000000000, ListPods, Sleep 30000000000, ListPods,
      Store ''ns/app-1'' 2000, Log (DetectedRestart ''app-1'' ''ns''),
      Go ''app-1'' ''ns'' 2000, Sleep 30000000000]"
    by simp
  note t = dispatch_only_for_later_start_time
    [of "[Inr [\<lparr>Namespace = ''ns'', Name = ''app-1'', StartTime = Some 1000,
                 ContainerStatuses = [\<lparr>RestartCount = 1\<rparr>]\<rparr>],
           Inr [\<lparr>Namespace = ''ns'', Name = ''app-1'', StartTime = Some 1000,
                 ContainerStatuses = [\<lparr>RestartCount = 1\<rparr>]\<rparr>],
           Inr [\<lparr>Namespace = ''ns'', Name = ''app-1'', StartTime = Some 2000,
                 ContainerStatuses = [\<lparr>RestartCount = 2\<rparr>]\<rparr>]]"
        Map.empty
        "[ListPods, Store ''ns/app-1'' 1000, Log (DetectedRestart ''app-1'' ''ns'')]"
        "''app-1''" "''ns''" 1000
        "[Sleep 30000000000, ListPods, Sleep 30000000000, ListPods,
          Store ''ns/app-1'' 2000, Log (DetectedRestart ''app-1'' ''ns''),
          Go ''app-1'' ''ns'' 2000, Sleep 30000000000]"
        2000]
  from t scenario_trace later show ?thesis by blast
qed

text \<open>
  Claim C2. The map that the loop holds is the one its stores produce, and whenever a
  task is dispatched for the pod \<open>(ns, nm)\<close> with start time \<open>T\<close>, the effects before the
  \<open>go\<close> statement end with the store of \<open>T\<close> under the pod's key and the log line, so
  that the entry of the key is \<open>T\<close> at the moment of the dispatch.
\<close>

theorem dedup_state_stored_before_dispatch:
  "fst (main_loop listings m) = replay m (snd (main_loop listings m))
   \<and> (snd (main_loop listings m) = pre @ Go nm ns T # post \<longrightarrow>
        replay m pre (dedup_key ns nm) = Some T
        \<and> (\<exists>pre'. pre = pre' @ [Store (dedup_key ns nm) T, Log (DetectedRestart nm ns)]))"
proof (intro conjI impI)
  show "fst (main_loop listings m) = replay m (snd (main_loop listings m))"
    using sync_inv_main_loop [of m listings] by (simp add: sync_inv_def)
next
  assume "snd (main_loop listings m) = pre @ Go nm ns T # post"
  with sync_inv_main_loop [of m listings]
  obtain pre' where pre: "pre = pre' @ [Store (dedup_key ns nm) T, Log (DetectedRestart nm ns)]"
    unfolding sync_inv_def by blast
  then show "\<exists>pre'. pre = pre' @ [Store (dedup_key ns nm) T, Log (DetectedRestart nm ns)]"
    by blast
  from pre show "replay m pre (dedup_key ns nm) = Some T"
    by (simp add: replay_append)
qed

theorem dedup_state_stored_before_dispatch_witness:
  "replay Map.empty [ListPods, Store ''ns/app-1'' 1000, Log (DetectedRestart ''app-1'' ''ns'')]
     (dedup_key ''ns'' ''app-1'') = Some 1000"
proof -
  note t = dedup_state_stored_before_dispatch
    [of "[Inr [\<lparr>Namespace = ''ns'', Name = ''app-1'', StartTime = Some 1000,
                 ContainerStatuses = [\<lparr>RestartCount = 1\<rparr>]\<rparr>],
           Inr [\<lparr>Namespace = ''ns'', Name = ''app-1'', StartTime = Some 1000,
                 ContainerStatuses = [\<lparr>RestartCount = 1\<rparr>]\<rparr>],
           Inr [\<lparr>Namespace = ''ns'', Name = ''app-1'', StartTime = Some 2000,
                 ContainerStatuses = [\<lparr>RestartCount = 2\<rparr>]\<rparr>]]"
        Map.empty
        "[ListPods, Store ''ns/app-1'' 1000, Log (DetectedRestart ''app-1'' ''ns'')]"
        "''app-1''" "''ns''" 1000
        "[Sleep 30000000000, ListPods, Sleep 30000000000, ListPods,
          Store ''ns/app-1'' 2000, Log (DetectedRestart ''app-1'' ''ns''),
          Go ''app-1'' ''ns'' 2000, Sleep 30000000000]"]
  from t scenario_trace show ?thesis by blast
qed

text \<open>
  Claim C4 fails on the code. After a listing error the iteration logs the error and
  ends without sleeping, so the next listing call follows at once; only an iteration
  whose listing succeeded ends with the sleep of \<open>CHECK_INTERVAL\<close>. The process goes on
  in both cases.
\<close>

theorem listing_failure_retries_without_sleep:
  "poll (Inl err) m = (m, [ListPods, Log (FetchPodsError err)])
   \<and> snd (poll (Inr items) m) = [ListPods] @ snd (scan_pods items m) @ [Sleep CHECK_INTERVAL]
   \<and> snd (main_loop [Inl err, Inr []] m) =
       [ListPods, Log (FetchPodsError err), ListPods, Sleep CHECK_INTERVAL]"
  by (simp add: poll_def main_loop_def scan_pods_def split: prod.splits)

section \<open>Properties of the analysis task\<close>

subsection \<open>The evidence collector\<close>

lemma collect_events_filter:
  "collect_events items podName restartTime acc =
     acc @ filter (\<lambda>e. InvolvedObjectName e = podName \<and> restartTime - 60000000000 < LastTimestamp e) items"
  by (induction items arbitrary: acc) (simp_all add: After_def Add_def Minute_def Second_def)

text \<open>
  Claim C9. For every incident and every event list of the provider, the selected events
  are, in the order of the list, exactly those whose involved-object name is the pod's
  name and whose last timestamp is after the start time minus one minute (60 * 10^9
  nanoseconds). There is no upper bound: every event of the pod with a last timestamp at
  or after the start time is selected, however late.
\<close>

theorem correlated_events_selected:
  "collect_events items podName restartTime [] =
     filter (\<lambda>e. InvolvedObjectName e = podName \<and> restartTime - 60000000000 < LastTimestamp e)
       items
   \<and> (e \<in> set (collect_events items podName restartTime []) \<longleftrightarrow>
        e \<in> set items \<and> InvolvedObjectName e = podName
        \<and> restartTime - 60000000000 < LastTimestamp e)
   \<and> (e \<in> set items \<and> InvolvedObjectName e = podName \<and> restartTime \<le> LastTimestamp e
        \<longrightarrow> e \<in> set (collect_events items podName restartTime []))"
  by (auto simp: collect_events_filter)

theorem correlated_events_selected_witness:
  "collect_events
     [\<lparr>InvolvedObjectName = ''app-1'', LastTimestamp = 99000000000,
        Reason = ''Killing'', Message = ''old''\<rparr>,
      \<lparr>InvolvedObjectName = ''app-1'', LastTimestamp = 150000000000,
        Reason = ''BackOff'', Message = ''restarting''\<rparr>,
      \<lparr>InvolvedObjectName = ''app-2'', LastTimestamp = 200000000000,
        Reason = ''Pulled'', Message = ''other pod''\<rparr>,
      \<lparr>InvolvedObjectName = ''app-1'', LastTimestamp = 9000000000000,
        Reason = ''Started'', Message = ''much later''\<rparr>]
     ''app-1'' 160000000000 [] =
     [\<lparr>InvolvedObjectName = ''app-1'', LastTimestamp = 150000000000,
        Reason = ''BackOff'', Message = ''restarting''\<rparr>,
      \<lparr>InvolvedObjectName = ''app-1'', LastTimestamp = 9000000000000,
        Reason = ''Started'', Message = ''much later''\<rparr>]"
  using correlated_events_selected
    [of "[\<lparr>InvolvedObjectName = ''app-1'', LastTimestamp = 99000000000,
        Reason = ''Killing'', Message = ''old''\<rparr>,
      \<lparr>InvolvedObjectName = ''app-1'', LastTimestamp = 150000000000,
        Reason = ''BackOff'', Message = ''restarting''\<rparr>,
      \<lparr>InvolvedObjectName = ''app-2'', LastTimestamp = 200000000000,
        Reason = ''Pulled'', Message = ''other pod''\<rparr>,
      \<lparr>InvolvedObjectName = ''app-1'', LastTimestamp = 9000000000000,
        Reason = ''Started'', Message = ''much later''\<rparr>]" "''app-1''" 160000000000]
  by simp

subsection \<open>The analysis requester\<close>

text \<open>
  Claim C3, amended. When the request was sent and the response body was read: if the
  body decodes and the decoded object has no \<open>response\<close> field, or one that is not a
  string, \<open>callOllama\<close> returns \<open>"No response from model"\<close> as a result without error; a
  string field is returned as it is; if the body cannot be decoded, \<open>callOllama\<close>
  returns the decoding error, and \<open>analyzePod\<close> logs it and ends the incident with
  nothing posted.
\<close>

theorem callOllama_fallback_only_when_decoded:
  "(newRequest_err io = None \<and> do_err io = None \<and> readAll_result io = Inr respBody \<longrightarrow>
      (unmarshal_result io = Inr parsed \<and> (\<forall>s. parsed ''response'' \<noteq> Some (JString s))
         \<longrightarrow> callOllama io logs events = Inr ''No response from model'')
      \<and> (unmarshal_result io = Inr parsed \<and> parsed ''response'' = Some (JString s)
         \<longrightarrow> callOllama io logs events = Inr s)
      \<and> (unmarshal_result io = Inl err \<longrightarrow> callOllama io logs events = Inl err))
   \<and> (getLogs_result aio = Inr logs \<and> listEvents_result aio = Inr items
       \<and> callOllama (ollama aio) logs (collect_events items podName restartTime []) = Inl err
       \<longrightarrow> analyzePod aio format_time podName ns restartTime = [Log (AnalyzeFailed podName err)])"
proof (intro conjI impI)
  assume "getLogs_result aio = Inr logs \<and> listEvents_result aio = Inr items
       \<and> callOllama (ollama aio) logs (collect_events items podName restartTime []) = Inl err"
  then show "analyzePod aio format_time podName ns restartTime = [Log (AnalyzeFailed podName err)]"
    by (simp add: analyzePod_def)
qed (auto simp: callOllama_def no_response_def split: option.splits json.splits)

theorem callOllama_fallback_only_when_decoded_witness:
  "callOllama \<lparr>newRequest_err = None, do_err = None, readAll_result = Inr ''{}'',
               unmarshal_result = Inr Map.empty\<rparr> ''logs'' []
     = Inr ''No response from model''
   \<and> callOllama \<lparr>newRequest_err = None, do_err = None,
                 readAll_result = Inr (''{'' @ [CHR 0x22] @ ''response'' @ [CHR 0x22] @ '':null}''),
                 unmarshal_result = Inr [''response'' \<mapsto> JNull]\<rparr> ''logs'' []
     = Inr ''No response from model''
   \<and> callOllama \<lparr>newRequest_err = None, do_err = None, readAll_result = Inr ''not json'',
                 unmarshal_result = Inl (Error ''invalid character'')\<rparr> ''logs'' []
     = Inl (Error ''invalid character'')"
proof -
  have "\<forall>s. (Map.empty :: string \<Rightarrow> json option) ''response'' \<noteq> Some (JString s)"
    by simp
  moreover have "\<forall>s. [''response'' \<mapsto> JNull] ''response'' \<noteq> Some (JString s)"
    by simp
  ultimately show ?thesis
    using callOllama_fallback_only_when_decoded
        [of "\<lparr>newRequest_err = None, do_err = None, readAll_result = Inr ''{}'',
               unmarshal_result = Inr Map.empty\<rparr>"
            "''{}''" Map.empty]
      callOllama_fallback_only_when_decoded
        [of "\<lparr>newRequest_err = None, do_err = None,
               readAll_result = Inr (''{'' @ [CHR 0x22] @ ''response'' @ [CHR 0x22] @ '':null}''),
               unmarshal_result = Inr [''response'' \<mapsto> JNull]\<rparr>"
            "''{'' @ [CHR 0x22] @ ''response'' @ [CHR 0x22] @ '':null}''"
            "[''response'' \<mapsto> JNull]"]
      callOllama_fallback_only_when_decoded
        [of "\<lparr>newRequest_err = None, do_err = None, readAll_result = Inr ''not json'',
               unmarshal_result = Inl (Error ''invalid character'')\<rparr>"
            "''not json''" _ _ _ _ "Error ''invalid character''"]
    by simp
qed

text \<open>
  Claim C3 as stated fails for a body that cannot be decoded: \<open>callOllama\<close> returns the
  error of \<open>json.Unmarshal\<close>, not the fallback string.
\<close>

theorem callOllama_undecodable_body_counterexample:
  "callOllama \<lparr>newRequest_err = None, do_err = None,
               readAll_result = Inr ''<html>502 Bad Gateway</html>'',
               unmarshal_result = Inl (Error ''invalid character'')\<rparr>
     ''logs'' []
   = Inl (Error ''invalid character'')"
  by (simp add: callOllama_def)

subsection \<open>The posts of an incident\<close>

lemma slack_posts_append: "slack_posts (a @ b) = slack_posts a @ slack_posts b"
proof (induction a)
  case Nil
  show ?case by simp
next
  case (Cons e a)
  then show ?case by (cases e) simp_all
qed

lemma slack_posts_postToSlack: "slack_posts (snd (postToSlack io p)) = [p]"
  by (simp add: postToSlack_def split: sum.splits option.splits json.splits)

lemma slack_posts_sendSlackThread:
  "slack_posts (sendSlackThread io ts msg) = [thread_payload ts msg]"
  by (simp add: sendSlackThread_def slack_posts_postToSlack)

lemma truncate_nonneg:
  "0 \<le> n \<Longrightarrow>
   truncate s n = Inr (if int (length s) \<le> n then s else take (nat n) s @ ''... (truncated)'')"
  by (simp add: truncate_def truncated_suffix_def)

text \<open>The posts of \<open>analyzePod\<close> once the parent message has been sent.\<close>

lemma analyzePod_posts:
  assumes "getLogs_result io = Inr logs" and "listEvents_result io = Inr items"
    and "callOllama (ollama io) logs (collect_events items podName restartTime []) = Inr analysis"
  shows "slack_posts (analyzePod io format_time podName ns restartTime) =
     (let ts = fst (sendMainSlackMessage (post_main io) format_time podName ns restartTime) in
      main_payload format_time podName ns restartTime #
      (if ts \<noteq> '''' then
         [thread_payload ts (events_block (collect_events items podName restartTime [])),
          thread_payload ts (logs_block
            (if int (length logs) \<le> 1000 then logs else take 1000 logs @ ''... (truncated)'')),
          thread_payload ts (analysis_block
            (if int (length analysis) \<le> 3000 then analysis
             else take 3000 analysis @ ''... (truncated)''))]
       else []))"
proof -
  obtain ts posted where m:
    "sendMainSlackMessage (post_main io) format_time podName ns restartTime = (ts, posted)"
    by (cases "sendMainSlackMessage (post_main io) format_time podName ns restartTime")
  have p: "slack_posts posted = [main_payload format_time podName ns restartTime]"
    using slack_posts_postToSlack [of "post_main io" "main_payload format_time podName ns restartTime"] m
    by (simp add: sendMainSlackMessage_def)
  have t1: "truncate logs 1000 =
      Inr (if int (length logs) \<le> 1000 then logs else take 1000 logs @ ''... (truncated)'')"
    using truncate_nonneg [of 1000 logs] by simp
  have t2: "truncate analysis 3000 =
      Inr (if int (length analysis) \<le> 3000 then analysis
           else take 3000 analysis @ ''... (truncated)'')"
    using truncate_nonneg [of 3000 analysis] by simp
  show ?thesis
    by (simp add: analyzePod_def Let_def assms m t1 t2 slack_posts_append
        slack_posts_sendSlackThread p)
qed

lemma analyzePod_aborted:
  "(getLogs_result io = Inl err \<longrightarrow>
      analyzePod io format_time podName ns restartTime = [Log (GetLogsFailed podName err)])
   \<and> (getLogs_result io = Inr logs \<and> listEvents_result io = Inl err \<longrightarrow>
      analyzePod io format_time podName ns restartTime = [Log (GetEventsFailed podName err)])
   \<and> (getLogs_result io = Inr logs \<and> listEvents_result io = Inr items
       \<and> callOllama (ollama io) logs (collect_events items podName restartTime []) = Inl err \<longrightarrow>
      analyzePod io format_time podName ns restartTime = [Log (AnalyzeFailed podName err)])"
  by (simp add: analyzePod_def)

lemma analyzePod_posts_cases:
  "slack_posts (analyzePod io format_time podName ns restartTime) = []
   \<or> (\<exists>logs items analysis.
         getLogs_result io = Inr logs \<and> listEvents_result io = Inr items
         \<and> callOllama (ollama io) logs (collect_events items podName restartTime []) = Inr analysis)"
proof (cases "getLogs_result io")
  case (Inl err)
  then show ?thesis by (simp add: analyzePod_def)
next
  case logs: (Inr logs)
  show ?thesis
  proof (cases "listEvents_result io")
    case (Inl err)
    with logs show ?thesis by (simp add: analyzePod_def)
  next
    case items: (Inr items)
    show ?thesis
    proof (cases "callOllama (ollama io) logs (collect_events items podName restartTime [])")
      case (Inl err)
      with logs items show ?thesis by (simp add: analyzePod_def)
    next
      case (Inr analysis)
      with logs items show ?thesis by blast
    qed
  qed
qed

text \<open>
  Claim C7. If the parent publish returns the empty message reference, the incident
  posts nothing but the parent message: none of the three reply blocks. And in every
  case each post of an incident other than the parent message is a reply under a
  non-empty thread reference, so no block is posted unthreaded.
\<close>

theorem no_replies_after_failed_parent:
  "(fst (sendMainSlackMessage (post_main io) format_time podName ns restartTime) = '''' \<longrightarrow>
      slack_posts (analyzePod io format_time podName ns restartTime) = []
      \<or> slack_posts (analyzePod io format_time podName ns restartTime) =
          [main_payload format_time podName ns restartTime])
   \<and> (\<forall>p \<in> set (slack_posts (analyzePod io format_time podName ns restartTime)).
        p = main_payload format_time podName ns restartTime
        \<or> (\<exists>ts msg. ts \<noteq> '''' \<and> p = thread_payload ts msg))"
proof -
  from analyzePod_posts_cases [of io format_time podName ns restartTime]
  show ?thesis
  proof (elim disjE exE conjE)
    assume "slack_posts (analyzePod io format_time podName ns restartTime) = []"
    then show ?thesis by simp
  next
    fix logs items analysis
    assume "getLogs_result io = Inr logs" "listEvents_result io = Inr items"
      "callOllama (ollama io) logs (collect_events items podName restartTime []) = Inr analysis"
    from analyzePod_posts [OF this, of format_time ns] show ?thesis
      by (auto simp: Let_def)
  qed
qed

theorem no_replies_after_failed_parent_witness:
  "fst (sendMainSlackMessage \<lparr>post_do = Inr ''{...}'', post_result = [''ok'' \<mapsto> JBool False]\<rparr>
          (\<lambda>t. ''2024-01-01 00:02:40'') ''app-1'' ''ns'' 160000000000) = ''''
   \<and> slack_posts
     (analyzePod
        \<lparr>getLogs_result = Inr ''panic: out of memory'',
         listEvents_result = Inr [],
         ollama = \<lparr>newRequest_err = None, do_err = None, readAll_result = Inr ''{}'',
                    unmarshal_result = Inr Map.empty\<rparr>,
         post_main = \<lparr>post_do = Inr ''{...}'', post_result = [''ok'' \<mapsto> JBool False]\<rparr>,
         post_events = \<lparr>post_do = Inr ''{...}'', post_result = [''ok'' \<mapsto> JBool True]\<rparr>,
         post_logs = \<lparr>post_do = Inr ''{...}'', post_result = [''ok'' \<mapsto> JBool True]\<rparr>,
         post_analysis = \<lparr>post_do = Inr ''{...}'', post_result = [''ok'' \<mapsto> JBool True]\<rparr>\<rparr>
        (\<lambda>t. ''2024-01-01 00:02:40'') ''app-1'' ''ns'' 160000000000) =
     [main_payload (\<lambda>t. ''2024-01-01 00:02:40'') ''app-1'' ''ns'' 160000000000]"
proof -
  let ?io = "\<lparr>getLogs_result = Inr ''panic: out of memory'',
         listEvents_result = Inr [],
         ollama = \<lparr>newRequest_err = None, do_err = None, readAll_result = Inr ''{}'',
                    unmarshal_result = Inr Map.empty\<rparr>,
         post_main = \<lparr>post_do = Inr ''{...}'', post_result = [''ok'' \<mapsto> JBool False]\<rparr>,
         post_events = \<lparr>post_do = Inr ''{...}'', post_result = [''ok'' \<mapsto> JBool True]\<rparr>,
         post_logs = \<lparr>post_do = Inr ''{...}'', post_result = [''ok'' \<mapsto> JBool True]\<rparr>,
         post_analysis = \<lparr>post_do = Inr ''{...}'', post_result = [''ok'' \<mapsto> JBool True]\<rparr>\<rparr>"
  let ?ft = "\<lambda>t::time. ''2024-01-01 00:02:40''"
  have h: "fst (sendMainSlackMessage (post_main ?io) ?ft ''app-1'' ''ns'' 160000000000) = ''''"
    by (simp add: sendMainSlackMessage_def postToSlack_def)
  have n: "slack_posts (analyzePod ?io ?ft ''app-1'' ''ns'' 160000000000) \<noteq> []"
    by (simp add: analyzePod_def callOllama_def sendMainSlackMessage_def postToSlack_def)
  from no_replies_after_failed_parent [of ?io ?ft "''app-1''" "''ns''" 160000000000] h n
  show ?thesis by simp
qed

text \<open>
  Claim C8. For an incident that reaches the parent publish (logs, events and analysis
  were obtained) and whose parent publish returns a non-empty reference \<open>ts\<close>, the posts
  are the parent message and then exactly three replies under \<open>ts\<close>, in this order: the
  events, the logs truncated to 1000 bytes, and the analysis truncated to 3000 bytes and
  then code-block formatted.
\<close>

theorem three_replies_after_parent:
  "getLogs_result io = Inr logs \<and> listEvents_result io = Inr items
   \<and> callOllama (ollama io) logs (collect_events items podName restartTime []) = Inr analysis
   \<and> fst (sendMainSlackMessage (post_main io) format_time podName ns restartTime) = ts
   \<and> ts \<noteq> ''''
   \<longrightarrow> slack_posts (analyzePod io format_time podName ns restartTime) =
       [main_payload format_time podName ns restartTime,
        thread_payload ts
          (emoji_clipboard @ '' *Events:*'' @ [newline] @ ''```''
           @ formatEvents (collect_events items podName restartTime []) @ ''```''),
        thread_payload ts
          (emoji_package @ '' *Logs:*'' @ [newline] @ ''```''
           @ (if length logs \<le> 1000 then logs else take 1000 logs @ ''... (truncated)'')
           @ ''```''),
        thread_payload ts
          (emoji_robot @ '' *Analysis:*'' @ [newline]
           @ formatCodeBlocks
               (if length analysis \<le> 3000 then analysis
                else take 3000 analysis @ ''... (truncated)''))]"
proof (intro impI, elim conjE)
  assume a: "getLogs_result io = Inr logs" "listEvents_result io = Inr items"
    "callOllama (ollama io) logs (collect_events items podName restartTime []) = Inr analysis"
    and ts: "fst (sendMainSlackMessage (post_main io) format_time podName ns restartTime) = ts"
      "ts \<noteq> ''''"
  have l: "(int (length logs) \<le> 1000) = (length logs \<le> 1000)"
    "(int (length analysis) \<le> 3000) = (length analysis \<le> 3000)"
    by simp_all
  from analyzePod_posts [OF a, of format_time ns] ts show
    "slack_posts (analyzePod io format_time podName ns restartTime) =
       [main_payload format_time podName ns restartTime,
        thread_payload ts
          (emoji_clipboard @ '' *Events:*'' @ [newline] @ ''```''
           @ formatEvents (collect_events items podName restartTime []) @ ''```''),
        thread_payload ts
          (emoji_package @ '' *Logs:*'' @ [newline] @ ''```''
           @ (if length logs \<le> 1000 then logs else take 1000 logs @ ''... (truncated)'')
           @ ''```''),
        thread_payload ts
          (emoji_robot @ '' *Analysis:*'' @ [newline]
           @ formatCodeBlocks
               (if length analysis \<le> 3000 then analysis
                else take 3000 analysis @ ''... (truncated)''))]"
    unfolding l by (simp add: Let_def events_block_def logs_block_def analysis_block_def)
qed

theorem three_replies_after_parent_witness:
  "slack_posts
     (analyzePod
        \<lparr>getLogs_result = Inr ''panic: out of memory'',
         listEvents_result =
           Inr [\<lparr>InvolvedObjectName = ''app-1'', LastTimestamp = 150000000000,
                  Reason = ''BackOff'', Message = ''restarting''\<rparr>],
         ollama = \<lparr>newRequest_err = None, do_err = None, readAll_result = Inr ''{...}'',
                    unmarshal_result =
                      Inr [''response'' \<mapsto> JString ''Raise the limit:\<newline>  kubectl edit deploy app'']\<rparr>,
         post_main = \<lparr>post_do = Inr ''{...}'',
                       post_result = [''ok'' \<mapsto> JBool True, ''ts'' \<mapsto> JString ''1700.0001'']\<rparr>,
         post_events = \<lparr>post_do = Inl (Error ''timeout''), post_result = Map.empty\<rparr>,
         post_logs = \<lparr>post_do = Inr ''{...}'', post_result = [''ok'' \<mapsto> JBool False]\<rparr>,
         post_analysis = \<lparr>post_do = Inr ''{...}'', post_result = [''ok'' \<mapsto> JBool True]\<rparr>\<rparr>
        (\<lambda>t. ''2024-01-01 00:02:40'') ''app-1'' ''ns'' 160000000000) =
     [main_payload (\<lambda>t. ''2024-01-01 00:02:40'') ''app-1'' ''ns'' 160000000000,
      \<lparr>p_channel = ''#all-vishal-personal'',
        p_text = emoji_clipboard @ '' *Events:*\<newline>```BackOff: restarting```'',
        p_thread_ts = Some ''1700.0001''\<rparr>,
      \<lparr>p_channel = ''#all-vishal-personal'',
        p_text = emoji_package @ '' *Logs:*\<newline>```panic: out of memory```'',
        p_thread_ts = Some ''1700.0001''\<rparr>,
      \<lparr>p_channel = ''#all-vishal-personal'',
        p_text = emoji_robot @ '' *Analysis:*\<newline>Raise the limit:\<newline>```bash\<newline>kubectl edit deploy app\<newline>```'',
        p_thread_ts = Some ''1700.0001''\<rparr>]"
proof -
  let ?io = "\<lparr>getLogs_result = Inr ''panic: out of memory'',
         listEvents_result =
           Inr [\<lparr>InvolvedObjectName = ''app-1'', LastTimestamp = 150000000000,
                  Reason = ''BackOff'', Message = ''restarting''\<rparr>],
         ollama = \<lparr>newRequest_err = None, do_err = None, readAll_result = Inr ''{...}'',
                    unmarshal_result =
                      Inr [''response'' \<mapsto> JString ''Raise the limit:\<newline>  kubectl edit deploy app'']\<rparr>,
         post_main = \<lparr>post_do = Inr ''{...}'',
                       post_result = [''ok'' \<mapsto> JBool True, ''ts'' \<mapsto> JString ''1700.0001'']\<rparr>,
         post_events = \<lparr>post_do = Inl (Error ''timeout''), post_result = Map.empty\<rparr>,
         post_logs = \<lparr>post_do = Inr ''{...}'', post_result = [''ok'' \<mapsto> JBool False]\<rparr>,
         post_analysis = \<lparr>post_do = Inr ''{...}'', post_result = [''ok'' \<mapsto> JBool True]\<rparr>\<rparr>"
  let ?items = "[\<lparr>InvolvedObjectName = ''app-1'', LastTimestamp = 150000000000,
                  Reason = ''BackOff'', Message = ''restarting''\<rparr>]"
  let ?analysis = "''Raise the limit:\<newline>  kubectl edit deploy app''"
  let ?ft = "\<lambda>t::time. ''2024-01-01 00:02:40''"
  have h: "getLogs_result ?io = Inr ''panic: out of memory'' \<and> listEvents_result ?io = Inr ?items
     \<and> callOllama (ollama ?io) ''panic: out of memory''
           (collect_events ?items ''app-1'' 160000000000 []) = Inr ?analysis
     \<and> fst (sendMainSlackMessage (post_main ?io) ?ft ''app-1'' ''ns'' 160000000000) = ''1700.0001''
     \<and> ''1700.0001'' \<noteq> ''''"
    by (simp add: callOllama_def sendMainSlackMessage_def postToSlack_def)
  note r = three_replies_after_parent
         [of ?io "''panic: out of memory''" ?items "''app-1''" 160000000000 ?analysis ?ft
             "''ns''" "''1700.0001''", THEN mp, OF h]
  show ?thesis
    by (subst r) code_simp
qed

end
